theory Spec2Isabelle
  imports Complex_Main
begin

section \<open>JavaScript strings and numbers used by the front end\<close>

text \<open>
  A JavaScript string is modelled as a \<open>string\<close>: a list of code units below 256.
  The white space and line terminators of ECMAScript in that range are TAB, LF, VT, FF,
  CR, SP and NBSP; \<open>String.prototype.trim\<close> strips them from both ends.
\<close>

definition is_ws :: "char \<Rightarrow> bool" where
  "is_ws c = (of_char c \<in> {9, 10, 11, 12, 13, 32, 160 :: nat})"

definition trim :: "string \<Rightarrow> string" where
  "trim s = rev (dropWhile is_ws (rev (dropWhile is_ws s)))"

text \<open>Truthiness of a string: only the empty string is falsy.\<close>

definition truthy :: "string \<Rightarrow> bool" where
  "truthy s = (s \<noteq> [])"

text \<open>
  \<open>a || b\<close> where \<open>a\<close> is an optional string argument (\<open>None\<close> is \<open>undefined\<close>) and
  \<open>b\<close> a string: \<open>b\<close> is taken when \<open>a\<close> is undefined or empty.
\<close>

definition or_else :: "string option \<Rightarrow> string \<Rightarrow> string" where
  "or_else a b = (case a of None \<Rightarrow> b | Some s \<Rightarrow> if truthy s then s else b)"

text \<open>
  Numbers: \<open>NaN\<close> or a finite value, kept as an exact rational. \<open>parseFloat\<close> skips
  leading white space and reads the longest prefix that is a decimal literal: a sign,
  digits, a fraction and an exponent; with no digit at all the result is \<open>NaN\<close>. The
  literal \<open>Infinity\<close> and the rounding of the value to a double are outside the model;
  no rating of the sample set needs either.
\<close>

datatype jsnum = NaN | Num rat

definition is_digit :: "char \<Rightarrow> bool" where
  "is_digit c = (48 \<le> (of_char c :: nat) \<and> (of_char c :: nat) \<le> 57)"

definition digits_val :: "string \<Rightarrow> nat" where
  "digits_val ds = foldl (\<lambda>acc c. 10 * acc + (of_char c - 48)) 0 ds"

definition read_sign :: "string \<Rightarrow> bool \<times> string" where
  "read_sign s =
     (case s of
        [] \<Rightarrow> (False, [])
      | c # r \<Rightarrow> if c = CHR ''-'' then (True, r)
                 else if c = CHR ''+'' then (False, r) else (False, s))"

definition read_fraction :: "string \<Rightarrow> string \<times> string" where
  "read_fraction s =
     (case s of
        [] \<Rightarrow> ([], [])
      | c # r \<Rightarrow> if c = CHR ''.'' then (takeWhile is_digit r, dropWhile is_digit r)
                 else ([], s))"

definition read_exponent :: "string \<Rightarrow> int" where
  "read_exponent s =
     (case s of
        [] \<Rightarrow> 0
      | c # r \<Rightarrow>
          if c = CHR ''e'' \<or> c = CHR ''E'' then
            (let (neg, r') = read_sign r; ds = takeWhile is_digit r'
             in if ds = [] then 0
                else if neg then - int (digits_val ds) else int (digits_val ds))
          else 0)"

definition scale10 :: "rat \<Rightarrow> int \<Rightarrow> rat" where
  "scale10 m e = (if 0 \<le> e then m * 10 ^ nat e else m / 10 ^ nat (- e))"

definition parseFloat :: "string \<Rightarrow> jsnum" where
  "parseFloat s =
     (let (neg, s2) = read_sign (dropWhile is_ws s);
          ip = takeWhile is_digit s2;
          (fp, s4) = read_fraction (dropWhile is_digit s2);
          m = of_nat (digits_val ip) + of_nat (digits_val fp) / 10 ^ length fp
      in if ip = [] \<and> fp = [] then NaN
         else Num (scale10 (if neg then - m else m) (read_exponent s4)))"

fun js_minus :: "jsnum \<Rightarrow> jsnum \<Rightarrow> jsnum" where
  "js_minus (Num x) (Num y) = Num (x - y)"
| "js_minus _ _ = NaN"

text \<open>
  \<open>Array.prototype.sort\<close> with a comparator is stable; a comparator result that is
  \<open>NaN\<close> counts as 0. \<open>positive v\<close> is the test \<open>v > 0\<close>, false for \<open>NaN\<close>. The sort is
  modelled as a stable insertion sort: an element moves behind another only when the
  comparator says so.
\<close>

fun positive :: "jsnum \<Rightarrow> bool" where
  "positive (Num x) = (0 < x)"
| "positive NaN = False"

fun insert_by :: "('a \<Rightarrow> 'a \<Rightarrow> jsnum) \<Rightarrow> 'a \<Rightarrow> 'a list \<Rightarrow> 'a list" where
  "insert_by cmp x [] = [x]"
| "insert_by cmp x (y # ys) =
     (if positive (cmp x y) then y # insert_by cmp x ys else x # y # ys)"

definition sort_by :: "('a \<Rightarrow> 'a \<Rightarrow> jsnum) \<Rightarrow> 'a list \<Rightarrow> 'a list" where
  "sort_by cmp xs = foldr (insert_by cmp) xs []"

section \<open>Home page: related ads of a clicked card\<close>

record sample_ad =
  ad_id :: int
  title :: string
  ad_type :: string
  ad_image :: string
  rating :: string
  votes :: string
  tags :: "string list"
  genre :: string

definition allAds :: "sample_ad list" where
  "allAds =
     [\<lparr>ad_id = 101, title = ''Nike: Just Do It Campaign'', ad_type = ''PROMOTED'',
       ad_image = ''https://images.unsplash.com/photo-1542291026-7eec264c27ff?w=400&h=500&fit=crop'',
       rating = ''4.9'', votes = ''256K'', tags = [''Athletic'', ''Motivational''],
       genre = ''Sports''\<rparr>,
      \<lparr>ad_id = 201, title = ''McDonald's: I'm Lovin' It'', ad_type = ''PROMOTED'',
       ad_image = ''https://images.unsplash.com/photo-1568901346375-23c9450c58cd?w=400&h=500&fit=crop'',
       rating = ''4.6'', votes = ''298K'', tags = [''Fast Food'', ''Family''],
       genre = ''Food''\<rparr>,
      \<lparr>ad_id = 301, title = ''Zara: Fast Fashion Leader'', ad_type = ''PROMOTED'',
       ad_image = ''https://images.unsplash.com/photo-1483985988355-763728e1935b?w=400&h=500&fit=crop'',
       rating = ''4.7'', votes = ''289K'', tags = [''Trendy'', ''Affordable''],
       genre = ''Fashion''\<rparr>]"

text \<open>The comparator of the sort: \<open>parseFloat(b.rating) - parseFloat(a.rating)\<close>.\<close>

definition by_rating_desc :: "sample_ad \<Rightarrow> sample_ad \<Rightarrow> jsnum" where
  "by_rating_desc a b = js_minus (parseFloat (rating b)) (parseFloat (rating a))"

text \<open>
  The pipeline of \<open>handleCardClick\<close> over any list of ads: filter on the clicked ad's
  genre and on a different id, sort by rating, keep the first three.
\<close>

definition related_of :: "sample_ad list \<Rightarrow> sample_ad \<Rightarrow> sample_ad list" where
  "related_of ads ad =
     take 3 (sort_by by_rating_desc
       (filter (\<lambda>item. genre item = genre ad \<and> ad_id item \<noteq> ad_id ad) ads))"

record home =
  selectedAd :: "sample_ad option"
  relatedAds :: "sample_ad list"
  body_overflow :: string

definition handleCardClick :: "sample_ad \<Rightarrow> home \<Rightarrow> home" where
  "handleCardClick ad st =
     st\<lparr>selectedAd := Some ad, relatedAds := related_of allAds ad,
        body_overflow := ''hidden''\<rparr>"

text \<open>
  \<open>rating_ge a b\<close>: both ratings parse to numbers and the first is at least the second.
\<close>

definition rating_ge :: "sample_ad \<Rightarrow> sample_ad \<Rightarrow> bool" where
  "rating_ge a b =
     (case (parseFloat (rating a), parseFloat (rating b)) of
        (Num x, Num y) \<Rightarrow> y \<le> x
      | _ \<Rightarrow> False)"

text \<open>\<open>parses a\<close>: the rating of \<open>a\<close> reads as a number.\<close>

definition parses :: "sample_ad \<Rightarrow> bool" where
  "parses a = (parseFloat (rating a) \<noteq> NaN)"

section \<open>Command Center chat\<close>

datatype sender = Bot | User

record chat_message =
  msg_id :: int
  msg_type :: sender
  content :: string
  timestamp :: string

text \<open>The body of the POST to \<open>/genai_call\<close>.\<close>

record request =
  req_message :: string
  req_action :: string
  req_locale :: string

text \<open>
  What the network gives back. \<open>fetch\<close> rejects (\<open>NetworkError\<close>) or resolves to a
  response with its \<open>ok\<close> flag and a body; \<open>response.json()\<close> rejects on a body that
  is not JSON (\<open>Unparsable\<close>), and otherwise gives \<open>null\<close> (\<open>JsonNull\<close>: reading
  \<open>data.reply\<close> throws) or a value whose \<open>reply\<close> is a string or is missing.
\<close>

datatype body = Unparsable | JsonNull | Json "string option"

datatype outcome = NetworkError | Response bool body

datatype thrown = FetchFailed | HttpError | JsonParseError | TypeError

text \<open>
  \<open>Date.now()\<close> and the formatted local time, read when the user message is built and
  when the bot message is built.
\<close>

record clock =
  now_sent :: int
  time_sent :: string
  now_settled :: int
  time_settled :: string

text \<open>
  The component's state (\<open>message\<close>, \<open>isLoading\<close>, \<open>messages\<close>) and the requests issued
  so far.
\<close>

record command_center =
  message :: string
  isLoading :: bool
  messages :: "chat_message list"
  requests :: "request list"

definition fallback_reply :: string where
  "fallback_reply = ''I apologize, but I couldn't generate a response.''"

definition connection_error_reply :: string where
  "connection_error_reply =
     ''I apologize, but I encountered an error connecting to the server. Please check your connection and try again.''"

text \<open>
  \<open>handleSend\<close> is a closure of one render of the component: \<open>message\<close> and \<open>isLoading\<close>
  in its body are constants of that render. \<open>rendered\<close> is the state as that render saw
  it, and it is what the handler reads; \<open>st\<close> is the state when the handler runs, and it
  is what the setters update (\<open>setMessages\<close> with a function of the previous messages).
  A setter does not change \<open>rendered\<close>: only the handlers of the next render read the
  new state.
\<close>

definition textToSend :: "string option \<Rightarrow> command_center \<Rightarrow> string" where
  "textToSend textOverride rendered = or_else textOverride (message rendered)"

text \<open>The guard of \<open>handleSend\<close>: \<open>!textToSend.trim() || isLoading\<close>.\<close>

definition send_refused :: "string option \<Rightarrow> command_center \<Rightarrow> bool" where
  "send_refused textOverride rendered =
     (\<not> truthy (trim (textToSend textOverride rendered)) \<or> isLoading rendered)"

text \<open>
  \<open>handleSend\<close> up to the \<open>await\<close>: the guard, the user message, clearing the input
  when no override was given, \<open>isLoading\<close>, and the request. \<open>None\<close> is the early
  return. \<open>actionOverride\<close> defaults to \<open>chat\<close>.
\<close>

definition handleSend_begin ::
  "string option \<Rightarrow> string option \<Rightarrow> clock \<Rightarrow> command_center \<Rightarrow> command_center \<Rightarrow>
   command_center option"
where
  "handleSend_begin textOverride actionOverride clk rendered st =
     (if send_refused textOverride rendered then None
      else
        let userMessage =
              \<lparr>msg_id = now_sent clk, msg_type = User,
               content = textToSend textOverride rendered, timestamp = time_sent clk\<rparr>;
            st1 = st\<lparr>messages := messages st @ [userMessage]\<rparr>;
            st2 = (if or_else textOverride [] = [] then st1\<lparr>message := []\<rparr> else st1);
            st3 = st2\<lparr>isLoading := True\<rparr>
        in Some (st3\<lparr>requests := requests st3 @
                   [\<lparr>req_message = textToSend textOverride rendered,
                     req_action = (case actionOverride of None \<Rightarrow> ''chat'' | Some a \<Rightarrow> a),
                     req_locale = ''US (en-US), currency $''\<rparr>]\<rparr>))"

text \<open>The \<open>try\<close> block after the \<open>await\<close>: the bot message, or what is thrown.\<close>

definition try_reply :: "outcome \<Rightarrow> clock \<Rightarrow> thrown + chat_message" where
  "try_reply out clk =
     (case out of
        NetworkError \<Rightarrow> Inl FetchFailed
      | Response ok b \<Rightarrow>
          if \<not> ok then Inl HttpError
          else (case b of
                  Unparsable \<Rightarrow> Inl JsonParseError
                | JsonNull \<Rightarrow> Inl TypeError
                | Json reply \<Rightarrow>
                    Inr \<lparr>msg_id = now_settled clk + 1, msg_type = Bot,
                         content = or_else reply fallback_reply,
                         timestamp = time_settled clk\<rparr>))"

text \<open>\<open>try\<close>, \<open>catch\<close> and \<open>finally\<close>.\<close>

definition handleSend_settle :: "outcome \<Rightarrow> clock \<Rightarrow> command_center \<Rightarrow> command_center" where
  "handleSend_settle out clk st =
     (let st' =
        (case try_reply out clk of
           Inr botMessage \<Rightarrow> st\<lparr>messages := messages st @ [botMessage]\<rparr>
         | Inl e \<Rightarrow>
             st\<lparr>messages := messages st @
                  [\<lparr>msg_id = now_settled clk + 1, msg_type = Bot,
                    content = connection_error_reply, timestamp = time_settled clk\<rparr>]\<rparr>)
      in st'\<lparr>isLoading := False\<rparr>)"

definition handleSend ::
  "string option \<Rightarrow> string option \<Rightarrow> outcome \<Rightarrow> clock \<Rightarrow> command_center \<Rightarrow> command_center \<Rightarrow>
   command_center"
where
  "handleSend textOverride actionOverride out clk rendered st =
     (case handleSend_begin textOverride actionOverride clk rendered st of
        None \<Rightarrow> st
      | Some st' \<Rightarrow> handleSend_settle out clk st')"

subsection \<open>ChatInput\<close>







section \<open>Fetch orchestration\<close>

text \<open>
  The Fetch Orchestrator with its dedup and upsert step is specified in sections 3, 4.1,
  4.2 and 4.3 of the spec; its code (the backend's ad fetcher, its platform services and
  its database models) is not among the sources. Every definition of this section up to
  \<open>runFetch\<close> is modelled from the words of the spec. Time is a number that the caller
  reads off the clock; the surrogate ids of rows are left out, a row being identified by
  its dedup key and a job by its place in the ledger.
\<close>

text \<open>
  Modelled from the spec: the platforms (the fixed enum of section 3: general search,
  social, forum, professional network) and the media formats of an ad.
\<close>

datatype platform = GeneralSearch | Social | Forum | ProfessionalNetwork

datatype media_format = ImageFormat | VideoFormat | CarouselFormat

text \<open>Modelled from the spec: the Ad of section 3; \<open>None\<close> is an absent impressions field.\<close>

record ad =
  competitor :: nat
  platform :: platform
  external_ad_id :: string
  headline :: string
  description :: string
  destination_url :: string
  media :: media_format
  raw_payload :: string
  impressions :: "nat option"
  first_seen :: nat
  last_seen :: nat
  is_active :: bool

text \<open>
  Modelled from the spec: a normalized ad as an adapter returns it (section 4.1), before
  the orchestrator gives it a competitor, a platform and its timestamps.
\<close>

record observed =
  o_external_ad_id :: string
  o_headline :: string
  o_description :: string
  o_destination_url :: string
  o_media :: media_format
  o_raw_payload :: string
  o_impressions :: "nat option"

text \<open>
  Modelled from the spec: the error kinds of section 7 that an adapter reports, and the
  \<open>FetchResult\<close> of the adapter contract (section 4.1).
\<close>

datatype error_kind = Timeout | AuthFailure | MalformedResponse

datatype fetch_result =
  Ok "observed list"
| PartialOk "observed list" string
| Error error_kind string

text \<open>
  Modelled from the spec: the Fetch Job of section 3, with one outcome record per
  platform; the status of an outcome is \<open>None\<close> while its slot is not yet filled.
\<close>

datatype job_status = Pending | Running | Completed | Partial | Failed

datatype outcome_status = OutcomeOk | OutcomeError

record platform_outcome =
  po_platform :: platform
  po_status :: "outcome_status option"
  po_error_detail :: "string option"
  po_ads_returned :: nat

record fetch_job =
  job_competitor :: nat
  started_at :: nat
  finished_at :: "nat option"
  job_status :: job_status
  outcomes :: "platform_outcome list"

text \<open>Modelled from the spec: the stored ads and the job ledger.\<close>

record store =
  ads :: "ad list"
  jobs :: "fetch_job list"

text \<open>Modelled from the spec: the orchestration-level error of sections 4.2 and 7.\<close>

datatype fetch_error = AlreadyRunning

text \<open>Modelled from the spec: the known platforms, one adapter each (section 2).\<close>

definition platforms :: "platform list" where
  "platforms = [GeneralSearch, Social, Forum, ProfessionalNetwork]"

text \<open>
  Modelled from the spec: the ads of a platform's result, \<open>None\<close> when the adapter
  errored (section 4.2, step 3).
\<close>

definition returned :: "fetch_result \<Rightarrow> observed list option" where
  "returned r = (case r of Ok obs \<Rightarrow> Some obs | PartialOk obs w \<Rightarrow> Some obs | Error k m \<Rightarrow> None)"

text \<open>Modelled from the spec: the dedup key (competitor, platform, external-ad-id).\<close>

definition same_key :: "nat \<Rightarrow> platform \<Rightarrow> string \<Rightarrow> ad \<Rightarrow> bool" where
  "same_key c p x a = (competitor a = c \<and> platform a = p \<and> external_ad_id a = x)"

text \<open>
  Modelled from the spec: section 4.3. A new row gets first-seen = last-seen = now and
  is active; an existing row gets last-seen = now, is active again, and takes the
  observed headline, description, URL and impressions, keeping its first-seen.
\<close>

definition new_ad :: "nat \<Rightarrow> platform \<Rightarrow> nat \<Rightarrow> observed \<Rightarrow> ad" where
  "new_ad c p now ob =
     \<lparr>competitor = c, platform = p, external_ad_id = o_external_ad_id ob,
      headline = o_headline ob, description = o_description ob,
      destination_url = o_destination_url ob, media = o_media ob,
      raw_payload = o_raw_payload ob, impressions = o_impressions ob,
      first_seen = now, last_seen = now, is_active = True\<rparr>"

definition refresh :: "nat \<Rightarrow> observed \<Rightarrow> ad \<Rightarrow> ad" where
  "refresh now ob a =
     a\<lparr>last_seen := now, is_active := True, headline := o_headline ob,
       description := o_description ob, destination_url := o_destination_url ob,
       impressions := o_impressions ob\<rparr>"

definition touch :: "nat \<Rightarrow> platform \<Rightarrow> nat \<Rightarrow> observed \<Rightarrow> ad \<Rightarrow> ad" where
  "touch c p now ob a = (if same_key c p (o_external_ad_id ob) a then refresh now ob a else a)"

definition upsert :: "nat \<Rightarrow> platform \<Rightarrow> nat \<Rightarrow> observed \<Rightarrow> ad list \<Rightarrow> ad list" where
  "upsert c p now ob rows =
     (if \<exists>a \<in> set rows. same_key c p (o_external_ad_id ob) a
      then map (touch c p now ob) rows
      else rows @ [new_ad c p now ob])"

definition upsert_all :: "nat \<Rightarrow> platform \<Rightarrow> nat \<Rightarrow> observed list \<Rightarrow> ad list \<Rightarrow> ad list" where
  "upsert_all c p now obs rows = foldl (\<lambda>rs ob. upsert c p now ob rs) rows obs"

text \<open>
  Modelled from the spec: section 4.2, step 5, for one platform that returned a result:
  an ad of this competitor and platform whose external id is not in the result is
  marked inactive and stays in the store.
\<close>

definition deactivate :: "nat \<Rightarrow> platform \<Rightarrow> observed list \<Rightarrow> ad \<Rightarrow> ad" where
  "deactivate c p obs a =
     (if competitor a = c \<and> platform a = p \<and>
         external_ad_id a \<notin> set (map o_external_ad_id obs)
      then a\<lparr>is_active := False\<rparr> else a)"

definition mark_inactive :: "nat \<Rightarrow> platform \<Rightarrow> observed list \<Rightarrow> ad list \<Rightarrow> ad list" where
  "mark_inactive c p obs rows = map (deactivate c p obs) rows"

text \<open>
  Modelled from the spec: section 4.2, steps 3 and 5 over the platforms. A platform that
  errored is skipped in both.
\<close>

definition upsert_platforms ::
  "nat \<Rightarrow> (platform \<Rightarrow> fetch_result) \<Rightarrow> nat \<Rightarrow> platform list \<Rightarrow> ad list \<Rightarrow> ad list"
where
  "upsert_platforms c results now ps rows =
     foldl (\<lambda>rs p. case returned (results p) of
                      Some obs \<Rightarrow> upsert_all c p now obs rs
                    | None \<Rightarrow> rs) rows ps"

definition mark_platforms ::
  "nat \<Rightarrow> (platform \<Rightarrow> fetch_result) \<Rightarrow> platform list \<Rightarrow> ad list \<Rightarrow> ad list"
where
  "mark_platforms c results ps rows =
     foldl (\<lambda>rs p. case returned (results p) of
                      Some obs \<Rightarrow> mark_inactive c p obs rs
                    | None \<Rightarrow> rs) rows ps"

text \<open>
  Modelled from the spec: section 4.2, step 4 (failed when every platform errored,
  partial when some did, completed otherwise), and the outcome records of a job when it
  is opened and when it is closed.
\<close>

definition overall_status :: "(platform \<Rightarrow> fetch_result) \<Rightarrow> job_status" where
  "overall_status results =
     (let errored = filter (\<lambda>p. returned (results p) = None) platforms
      in if length errored = length platforms then Failed
         else if errored \<noteq> [] then Partial
         else Completed)"

definition outcome_of :: "(platform \<Rightarrow> fetch_result) \<Rightarrow> platform \<Rightarrow> platform_outcome" where
  "outcome_of results p =
     (case results p of
        Ok obs \<Rightarrow>
          \<lparr>po_platform = p, po_status = Some OutcomeOk, po_error_detail = None,
           po_ads_returned = length obs\<rparr>
      | PartialOk obs w \<Rightarrow>
          \<lparr>po_platform = p, po_status = Some OutcomeOk, po_error_detail = Some w,
           po_ads_returned = length obs\<rparr>
      | Error k m \<Rightarrow>
          \<lparr>po_platform = p, po_status = Some OutcomeError, po_error_detail = Some m,
           po_ads_returned = 0\<rparr>)"

definition open_slot :: "platform \<Rightarrow> platform_outcome" where
  "open_slot p =
     \<lparr>po_platform = p, po_status = None, po_error_detail = None, po_ads_returned = 0\<rparr>"

text \<open>
  Modelled from the spec: \<open>runFetch\<close> (section 4.2). \<open>results\<close> is what each adapter
  returns in this run, \<open>now\<close> the time of the run's writes and \<open>finished\<close> the time it
  ends. A competitor with a running job is refused; otherwise the job is opened as
  running, the results are upserted, vanished ads are marked inactive, and the job is
  closed with its status and written to the ledger.
\<close>

definition runFetch ::
  "nat \<Rightarrow> (platform \<Rightarrow> fetch_result) \<Rightarrow> nat \<Rightarrow> nat \<Rightarrow> store \<Rightarrow> fetch_error + fetch_job \<times> store"
where
  "runFetch c results now finished s =
     (if \<exists>j \<in> set (jobs s). job_competitor j = c \<and> job_status j = Running
      then Inl AlreadyRunning
      else
        let job = \<lparr>job_competitor = c, started_at = now, finished_at = None,
                   job_status = Running, outcomes = map open_slot platforms\<rparr>;
            rows = upsert_platforms c results now platforms (ads s);
            rows' = mark_platforms c results platforms rows;
            job' = job\<lparr>finished_at := Some finished, job_status := overall_status results,
                      outcomes := map (outcome_of results) platforms\<rparr>
        in Inr (job', \<lparr>ads = rows', jobs = jobs s @ [job']\<rparr>))"

subsection \<open>Notions for the proofs about a run\<close>

text \<open>
  \<open>latest obs x\<close>: the last ad of a result with external id \<open>x\<close>, the one whose fields a
  row ends up with.
\<close>

definition latest :: "observed list \<Rightarrow> string \<Rightarrow> observed option" where
  "latest obs x = find (\<lambda>ob. o_external_ad_id ob = x) (rev obs)"

text \<open>
  What the upserts of one result, and of a whole run, do to a row that is already stored;
  what marking does to it.
\<close>

definition touch_all :: "nat \<Rightarrow> platform \<Rightarrow> nat \<Rightarrow> observed list \<Rightarrow> ad \<Rightarrow> ad" where
  "touch_all c p now obs a = foldl (\<lambda>b ob. touch c p now ob b) a obs"

definition row_upserted :: "nat \<Rightarrow> (platform \<Rightarrow> fetch_result) \<Rightarrow> nat \<Rightarrow> ad \<Rightarrow> ad" where
  "row_upserted c results now a =
     (if competitor a = c then
        (case returned (results (platform a)) of
           None \<Rightarrow> a
         | Some obs \<Rightarrow>
             (case latest obs (external_ad_id a) of
                None \<Rightarrow> a
              | Some ob \<Rightarrow> refresh now ob a))
      else a)"

definition row_marked :: "nat \<Rightarrow> (platform \<Rightarrow> fetch_result) \<Rightarrow> ad \<Rightarrow> ad" where
  "row_marked c results a =
     (case returned (results (platform a)) of
        None \<Rightarrow> a
      | Some obs \<Rightarrow> deactivate c (platform a) obs a)"

text \<open>
  Predicates on rows for the proofs: a row agrees with the latest observation of its key
  in one result (\<open>fresh\<close>) and with the results of a whole run (\<open>settled\<close>); a key has
  a row; every observed key has a row (\<open>covered\<close>).
\<close>

definition fresh :: "nat \<Rightarrow> platform \<Rightarrow> observed list \<Rightarrow> ad \<Rightarrow> bool" where
  "fresh c p obs b =
     (competitor b = c \<and> platform b = p \<longrightarrow>
        (case latest obs (external_ad_id b) of
           None \<Rightarrow> True
         | Some ob \<Rightarrow>
             is_active b \<and> headline b = o_headline ob \<and> description b = o_description ob \<and>
             destination_url b = o_destination_url ob \<and> impressions b = o_impressions ob))"

definition settled :: "nat \<Rightarrow> (platform \<Rightarrow> fetch_result) \<Rightarrow> ad \<Rightarrow> bool" where
  "settled c results b =
     (competitor b = c \<longrightarrow>
        (case returned (results (platform b)) of
           None \<Rightarrow> True
         | Some obs \<Rightarrow>
             (case latest obs (external_ad_id b) of
                None \<Rightarrow> \<not> is_active b
              | Some ob \<Rightarrow>
                  is_active b \<and> headline b = o_headline ob \<and>
                  description b = o_description ob \<and>
                  destination_url b = o_destination_url ob \<and>
                  impressions b = o_impressions ob)))"

definition has_key :: "nat \<Rightarrow> platform \<Rightarrow> string \<Rightarrow> ad list \<Rightarrow> bool" where
  "has_key c p x rows = (\<exists>b \<in> set rows. same_key c p x b)"

definition covered :: "nat \<Rightarrow> (platform \<Rightarrow> fetch_result) \<Rightarrow> ad list \<Rightarrow> bool" where
  "covered c results rows =
     (\<forall>p obs ob. returned (results p) = Some obs \<longrightarrow> ob \<in> set obs \<longrightarrow>
        has_key c p (o_external_ad_id ob) rows)"

text \<open>The stored ads after steps 3 and 5 of a run.\<close>

definition run_rows :: "nat \<Rightarrow> (platform \<Rightarrow> fetch_result) \<Rightarrow> nat \<Rightarrow> ad list \<Rightarrow> ad list" where
  "run_rows c results now rows =
     mark_platforms c results platforms (upsert_platforms c results now platforms rows)"

text \<open>
  \<open>reobserved c results b\<close>: \<open>b\<close> is an ad of competitor \<open>c\<close> whose platform returned a
  result that holds its external id.
\<close>

definition reobserved :: "nat \<Rightarrow> (platform \<Rightarrow> fetch_result) \<Rightarrow> ad \<Rightarrow> bool" where
  "reobserved c results b =
     (competitor b = c \<and>
      (case returned (results (platform b)) of
         None \<Rightarrow> False
       | Some obs \<Rightarrow> external_ad_id b \<in> set (map o_external_ad_id obs)))"

section \<open>Example values\<close>

text \<open>
  An example run: general search returns three ads, social times out, forum returns no
  ad, the professional network returns one ad and a warning; five ads are stored, one
  of them of another competitor.
\<close>

definition example_observed :: "string \<Rightarrow> media_format \<Rightarrow> nat option \<Rightarrow> observed" where
  "example_observed x m n =
     \<lparr>o_external_ad_id = x, o_headline = ''New arrivals'', o_description = ''Discover the range'',
      o_destination_url = ''https://shop.example/new'', o_media = m, o_raw_payload = ''{}'',
      o_impressions = n\<rparr>"

definition example_results :: "platform \<Rightarrow> fetch_result" where
  "example_results p =
     (case p of
        GeneralSearch \<Rightarrow>
          Ok [example_observed ''g-1'' ImageFormat (Some 12000), example_observed ''g-2'' VideoFormat None,
              example_observed ''g-3'' ImageFormat (Some 800)]
      | Social \<Rightarrow> Error Timeout ''timed out''
      | Forum \<Rightarrow> Ok []
      | ProfessionalNetwork \<Rightarrow> PartialOk [example_observed ''p-1'' CarouselFormat None] ''1 record skipped'')"

definition example_ad :: "nat \<Rightarrow> platform \<Rightarrow> string \<Rightarrow> nat \<Rightarrow> ad" where
  "example_ad c p x t =
     \<lparr>competitor = c, platform = p, external_ad_id = x, headline = ''Old headline'',
      description = ''Old description'', destination_url = ''https://shop.example/old'',
      media = ImageFormat, raw_payload = ''{}'', impressions = None,
      first_seen = t, last_seen = t, is_active = True\<rparr>"

definition example_store :: store where
  "example_store =
     \<lparr>ads = [example_ad 7 GeneralSearch ''g-1'' 50, example_ad 7 GeneralSearch ''g-0'' 60,
             example_ad 7 Social ''s-1'' 70, example_ad 7 Forum ''f-1'' 80,
             example_ad 8 GeneralSearch ''g-9'' 90],
      jobs = []\<rparr>"

text \<open>Cards with several ads of one genre, to run the related-ads pipeline on.\<close>

definition example_card :: "int \<Rightarrow> string \<Rightarrow> string \<Rightarrow> sample_ad" where
  "example_card i r g =
     \<lparr>ad_id = i, title = ''Sample'', ad_type = ''PROMOTED'', ad_image = ''sample.png'',
      rating = r, votes = ''1K'', tags = [], genre = g\<rparr>"

definition example_cards :: "sample_ad list" where
  "example_cards =
     [example_card 1 ''4.9'' ''Sports'', example_card 2 ''10'' ''Sports'',
      example_card 3 ''4.95'' ''Sports'', example_card 4 ''4.6'' ''Food'',
      example_card 5 ''3'' ''Sports'', example_card 6 ''4.9'' ''Sports'']"

text \<open>A clock reading used in the examples below.\<close>

definition clk0 :: clock where
  "clk0 = \<lparr>now_sent = 1700000000000, time_sent = ''9:01 AM'',
            now_settled = 1700000000750, time_settled = ''9:01 AM''\<rparr>"

text \<open>
  States of the chat: idle with a typed text, idle with a blank input, and the state
  that \<open>handleSend\<close> leaves at its \<open>await\<close> when it runs on the first.
\<close>

definition example_idle :: command_center where
  "example_idle = \<lparr>message = '' hello '', isLoading = False, messages = [], requests = []\<rparr>"



section \<open>Properties of the Command Center chat\<close>




text \<open>
  C9, as stated, fails. A response that is ok and has a reply field does not always put
  the server's reply in the bot message: an empty reply is falsy, and the bot message
  is the fallback text. A response that is ok with the body \<open>null\<close> has no reply, and
  the bot message is not the fallback text but the connection-error text, since reading
  \<open>data.reply\<close> throws.
\<close>

theorem handleSend_empty_reply_gets_fallback:
  "map content (messages
     (handleSend None None (Response True (Json (Some ''''))) clk0 example_idle example_idle)) =
     ['' hello '', fallback_reply] \<and>
   fallback_reply \<noteq> '''' \<and>
   map content (messages
     (handleSend None None (Response True JsonNull) clk0 example_idle example_idle)) =
     ['' hello '', connection_error_reply] \<and>
   connection_error_reply \<noteq> fallback_reply"
  by (simp add: handleSend_def handleSend_begin_def handleSend_settle_def try_reply_def
      send_refused_def textToSend_def or_else_def truthy_def trim_def is_ws_def
      example_idle_def clk0_def fallback_reply_def connection_error_reply_def)

text \<open>
  C9, amended. A \<open>handleSend\<close> that passes its guard appends exactly the user message
  and then exactly one bot message: the reply of the server when the response is ok and
  its body carries a non-empty reply, the fallback text when the body's reply is
  missing or empty, and the connection-error text when \<open>fetch\<close> rejects, the status is
  not ok or the body cannot be read (it is not JSON, or it is \<open>null\<close>). \<open>isLoading\<close> is
  false afterwards on every path, and one request was issued.
\<close>

theorem handleSend_appends_user_then_bot:
  assumes "\<not> (trim (or_else textOverride (message rendered)) = [] \<or> isLoading rendered)"
  shows "messages (handleSend textOverride actionOverride out clk rendered st) =
           messages st @
             [\<lparr>msg_id = now_sent clk, msg_type = User,
               content = or_else textOverride (message rendered), timestamp = time_sent clk\<rparr>,
              \<lparr>msg_id = now_settled clk + 1, msg_type = Bot,
               content =
                 (case out of
                    Response True (Json (Some reply)) \<Rightarrow>
                      if reply = [] then fallback_reply else reply
                  | Response True (Json None) \<Rightarrow> fallback_reply
                  | _ \<Rightarrow> connection_error_reply),
               timestamp = time_settled clk\<rparr>] \<and>
         \<not> isLoading (handleSend textOverride actionOverride out clk rendered st) \<and>
         length (requests (handleSend textOverride actionOverride out clk rendered st)) =
           Suc (length (requests st))"
proof -
  from assms have r: "\<not> send_refused textOverride rendered"
    by (simp add: send_refused_def textToSend_def truthy_def)
  obtain st' where b: "handleSend_begin textOverride actionOverride clk rendered st = Some st'"
    and m: "messages st' = messages st @
             [\<lparr>msg_id = now_sent clk, msg_type = User,
               content = or_else textOverride (message rendered), timestamp = time_sent clk\<rparr>]"
    and q: "length (requests st') = Suc (length (requests st))"
    using r by (simp add: handleSend_begin_def Let_def textToSend_def)
  have h: "handleSend textOverride actionOverride out clk rendered st =
           handleSend_settle out clk st'"
    using b by (simp add: handleSend_def)
  have "messages (handleSend_settle out clk st') = messages st' @
          [\<lparr>msg_id = now_settled clk + 1, msg_type = Bot,
               content =
                 (case out of
                    Response True (Json (Some reply)) \<Rightarrow>
                      if reply = [] then fallback_reply else reply
                  | Response True (Json None) \<Rightarrow> fallback_reply
                  | _ \<Rightarrow> connection_error_reply),
               timestamp = time_settled clk\<rparr>]"
    by (simp add: handleSend_settle_def try_reply_def or_else_def truthy_def
        split: outcome.splits body.splits option.splits bool.splits)
  moreover have "\<not> isLoading (handleSend_settle out clk st')"
    by (simp add: handleSend_settle_def)
  moreover have "requests (handleSend_settle out clk st') = requests st'"
    by (simp add: handleSend_settle_def split: sum.splits)
  ultimately show ?thesis using h m q by simp
qed

theorem handleSend_appends_user_then_bot_witness:
  "\<not> (trim (or_else None (message example_idle)) = [] \<or> isLoading example_idle) \<and>
   map content (messages (handleSend None None (Response True (Json (Some ''Hi Ravi''))) clk0
      example_idle example_idle))
     = ['' hello '', ''Hi Ravi''] \<and>
   map content (messages (handleSend None None (Response True (Json None)) clk0
      example_idle example_idle))
     = ['' hello '', fallback_reply] \<and>
   map content (messages (handleSend None None (Response True (Json (Some ''''))) clk0
      example_idle example_idle))
     = ['' hello '', fallback_reply] \<and>
   map content (messages (handleSend None None (Response False (Json (Some ''Hi Ravi''))) clk0
      example_idle example_idle))
     = ['' hello '', connection_error_reply] \<and>
   map content (messages (handleSend None None NetworkError clk0 example_idle example_idle))
     = ['' hello '', connection_error_reply] \<and>
   \<not> isLoading (handleSend None None NetworkError clk0 example_idle example_idle)"
proof -
  have g: "\<not> (trim (or_else None (message example_idle)) = [] \<or> isLoading example_idle)"
    by (simp add: or_else_def trim_def is_ws_def example_idle_def)
  have m: "message example_idle = '' hello ''" "messages example_idle = []"
    by (simp_all add: example_idle_def)
  show ?thesis
    using g
      handleSend_appends_user_then_bot [OF g, where actionOverride = None and clk = clk0
        and st = example_idle and out = "Response True (Json (Some ''Hi Ravi''))"]
      handleSend_appends_user_then_bot [OF g, where actionOverride = None and clk = clk0
        and st = example_idle and out = "Response True (Json None)"]
      handleSend_appends_user_then_bot [OF g, where actionOverride = None and clk = clk0
        and st = example_idle and out = "Response True (Json (Some ''''))"]
      handleSend_appends_user_then_bot [OF g, where actionOverride = None and clk = clk0
        and st = example_idle and out = "Response False (Json (Some ''Hi Ravi''))"]
      handleSend_appends_user_then_bot [OF g, where actionOverride = None and clk = clk0
        and st = example_idle and out = NetworkError]
    by (simp add: or_else_def m)
qed

section \<open>Properties of the Home page\<close>

lemma set_insert_by: "set (insert_by cmp x ys) = insert x (set ys)"
  by (induction ys) auto

lemma set_sort_by: "set (sort_by cmp xs) = set xs"
  by (induction xs) (auto simp: sort_by_def set_insert_by)

lemma length_insert_by: "length (insert_by cmp x ys) = Suc (length ys)"
  by (induction ys) auto

lemma length_sort_by: "length (sort_by cmp xs) = length xs"
  by (induction xs) (auto simp: sort_by_def length_insert_by)

lemma rating_ge_total:
  "parses a \<Longrightarrow> parses b \<Longrightarrow> \<not> positive (by_rating_desc a b) \<Longrightarrow> rating_ge a b"
  by (cases "parseFloat (rating a)"; cases "parseFloat (rating b)")
     (auto simp: parses_def rating_ge_def by_rating_desc_def)

lemma rating_ge_positive:
  "parses a \<Longrightarrow> parses b \<Longrightarrow> positive (by_rating_desc a b) \<Longrightarrow> rating_ge b a"
  by (cases "parseFloat (rating a)"; cases "parseFloat (rating b)")
     (auto simp: parses_def rating_ge_def by_rating_desc_def)

lemma rating_ge_trans: "rating_ge a b \<Longrightarrow> rating_ge b c \<Longrightarrow> rating_ge a c"
  by (cases "parseFloat (rating a)"; cases "parseFloat (rating b)"; cases "parseFloat (rating c)")
     (auto simp: rating_ge_def)

lemma sorted_insert_by:
  "parses x \<Longrightarrow> list_all parses ys \<Longrightarrow> sorted_wrt rating_ge ys \<Longrightarrow>
   sorted_wrt rating_ge (insert_by by_rating_desc x ys)"
proof (induction ys)
  case Nil
  then show ?case by simp
next
  case (Cons y ys)
  show ?case
  proof (cases "positive (by_rating_desc x y)")
    case True
    with Cons have "rating_ge y x" by (simp add: rating_ge_positive)
    with Cons True show ?thesis by (auto simp: set_insert_by)
  next
    case False
    with Cons have xy: "rating_ge x y" by (simp add: rating_ge_total)
    with Cons have "\<forall>z\<in>set ys. rating_ge x z" by (auto intro: rating_ge_trans)
    with Cons False xy show ?thesis by auto
  qed
qed

lemma sorted_sort_by:
  "list_all parses xs \<Longrightarrow> sorted_wrt rating_ge (sort_by by_rating_desc xs)"
proof (induction xs)
  case Nil
  then show ?case by (simp add: sort_by_def)
next
  case (Cons x xs)
  then have "sorted_wrt rating_ge (sort_by by_rating_desc xs)" by simp
  moreover from Cons have "list_all parses (sort_by by_rating_desc xs)"
    by (simp add: list_all_iff set_sort_by)
  ultimately show ?case using Cons.prems
    by (simp add: sort_by_def sorted_insert_by[unfolded sort_by_def])
qed

lemma sorted_wrt_take_n: "sorted_wrt P xs \<Longrightarrow> sorted_wrt P (take n xs)"
  by (metis sorted_wrt_append append_take_drop_id)

lemma related_of_props:
  assumes "list_all parses items"
  shows "set (related_of items ad) \<subseteq>
           {item \<in> set items. genre item = genre ad \<and> ad_id item \<noteq> ad_id ad}"
    and "sorted_wrt rating_ge (related_of items ad)"
    and "length (related_of items ad) \<le> 3"
proof -
  let ?f = "filter (\<lambda>item. genre item = genre ad \<and> ad_id item \<noteq> ad_id ad) items"
  have "set (related_of items ad) \<subseteq> set (sort_by by_rating_desc ?f)"
    unfolding related_of_def by (rule set_take_subset)
  then show "set (related_of items ad) \<subseteq>
           {item \<in> set items. genre item = genre ad \<and> ad_id item \<noteq> ad_id ad}"
    by (auto simp: set_sort_by)
  from assms have "list_all parses ?f" by (simp add: list_all_iff)
  then show "sorted_wrt rating_ge (related_of items ad)"
    unfolding related_of_def by (intro sorted_wrt_take_n sorted_sort_by)
  show "length (related_of items ad) \<le> 3" by (simp add: related_of_def)
qed

lemma allAds_parse: "list_all parses allAds"
  unfolding allAds_def parses_def by code_simp

text \<open>
  C10. The related ads handed to the detail modal after a click are ads of the sample
  set with the clicked ad's genre and another id, in descending order of their numeric
  rating, and at most three. They are the result of the pipeline \<open>related_of\<close> on the
  sample set, and the pipeline gives such a list on any set of ads whose ratings read
  as numbers.
\<close>

theorem handleCardClick_related:
  "set (relatedAds (handleCardClick ad st)) \<subseteq>
     {item \<in> set allAds. genre item = genre ad \<and> ad_id item \<noteq> ad_id ad} \<and>
   sorted_wrt rating_ge (relatedAds (handleCardClick ad st)) \<and>
   length (relatedAds (handleCardClick ad st)) \<le> 3 \<and>
   relatedAds (handleCardClick ad st) = related_of allAds ad \<and>
   (list_all parses items \<longrightarrow>
      set (related_of items ad) \<subseteq>
        {item \<in> set items. genre item = genre ad \<and> ad_id item \<noteq> ad_id ad} \<and>
      sorted_wrt rating_ge (related_of items ad) \<and>
      length (related_of items ad) \<le> 3)"
  using related_of_props [OF allAds_parse, of ad] related_of_props [of items ad]
  by (simp add: handleCardClick_def)

theorem handleCardClick_related_witness:
  "list_all parses example_cards \<and>
   map ad_id (related_of example_cards (example_card 6 ''4.9'' ''Sports'')) = [2, 3, 1] \<and>
   map rating (related_of example_cards (example_card 6 ''4.9'' ''Sports'')) =
     [''10'', ''4.95'', ''4.9''] \<and>
   sorted_wrt rating_ge (related_of example_cards (example_card 6 ''4.9'' ''Sports''))"
proof -
  have p: "list_all parses example_cards"
    unfolding example_cards_def example_card_def parses_def by code_simp
  have "map ad_id (related_of example_cards (example_card 6 ''4.9'' ''Sports'')) = [2, 3, 1]"
    and "map rating (related_of example_cards (example_card 6 ''4.9'' ''Sports'')) =
     [''10'', ''4.95'', ''4.9'']"
    by code_simp+
  with p handleCardClick_related [of "example_card 6 ''4.9'' ''Sports''" _ example_cards]
  show ?thesis by simp
qed

section \<open>Properties of the fetch orchestration\<close>

lemma refresh_key [simp]:
  "competitor (refresh now ob a) = competitor a"
  "platform (refresh now ob a) = platform a"
  "external_ad_id (refresh now ob a) = external_ad_id a"
  "first_seen (refresh now ob a) = first_seen a"
  by (simp_all add: refresh_def)

lemma refresh_refresh [simp]: "refresh now ob (refresh now' ob' a) = refresh now ob a"
  by (simp add: refresh_def)

lemma touch_key [simp]:
  "competitor (touch c p now ob a) = competitor a"
  "platform (touch c p now ob a) = platform a"
  "external_ad_id (touch c p now ob a) = external_ad_id a"
  "first_seen (touch c p now ob a) = first_seen a"
  by (simp_all add: touch_def)

lemma same_key_touch [simp]: "same_key c' p' x (touch c p now ob a) = same_key c' p' x a"
  by (simp add: same_key_def)

lemma latest_snoc:
  "latest (obs @ [ob]) x = (if o_external_ad_id ob = x then Some ob else latest obs x)"
  by (simp add: latest_def)

lemma latest_None_iff: "latest obs x = None \<longleftrightarrow> x \<notin> set (map o_external_ad_id obs)"
  by (auto simp: latest_def find_None_iff)

lemma latest_Some_id: "latest obs x = Some ob \<Longrightarrow> o_external_ad_id ob = x \<and> ob \<in> set obs"
  by (induction obs rule: rev_induct) (auto simp: latest_snoc latest_def split: if_splits)

lemma touch_all_snoc:
  "touch_all c p now (obs @ [ob]) a = touch c p now ob (touch_all c p now obs a)"
  by (simp add: touch_all_def)

lemma touch_all_key [simp]:
  "competitor (touch_all c p now obs a) = competitor a"
  "platform (touch_all c p now obs a) = platform a"
  "external_ad_id (touch_all c p now obs a) = external_ad_id a"
  "first_seen (touch_all c p now obs a) = first_seen a"
  by (induction obs rule: rev_induct) (simp_all add: touch_all_snoc, simp_all add: touch_all_def)

lemma touch_all_latest:
  "touch_all c p now obs a =
     (if competitor a = c \<and> platform a = p then
        (case latest obs (external_ad_id a) of None \<Rightarrow> a | Some ob \<Rightarrow> refresh now ob a)
      else a)"
proof (induction obs rule: rev_induct)
  case Nil
  show ?case by (simp add: touch_all_def latest_def)
next
  case (snoc ob obs)
  show ?case
    unfolding touch_all_snoc snoc.IH
    by (auto simp: touch_def same_key_def latest_snoc split: option.splits)
qed

lemma upsert_nth:
  "i < length rows \<Longrightarrow> upsert c p now ob rows ! i = touch c p now ob (rows ! i)"
  by (auto simp: upsert_def nth_append touch_def)

lemma upsert_length: "length rows \<le> length (upsert c p now ob rows)"
  by (simp add: upsert_def)

lemma upsert_all_length: "length rows \<le> length (upsert_all c p now obs rows)"
proof (induction obs arbitrary: rows)
  case Nil
  show ?case by (simp add: upsert_all_def)
next
  case (Cons ob obs)
  have "length rows \<le> length (upsert c p now ob rows)" by (rule upsert_length)
  also have "\<dots> \<le> length (upsert_all c p now obs (upsert c p now ob rows))" by (rule Cons.IH)
  finally show ?case by (simp add: upsert_all_def)
qed

lemma upsert_all_nth:
  "i < length rows \<Longrightarrow> upsert_all c p now obs rows ! i = touch_all c p now obs (rows ! i)"
proof (induction obs arbitrary: rows)
  case Nil
  show ?case by (simp add: upsert_all_def touch_all_def)
next
  case (Cons ob obs)
  from Cons.prems have "i < length (upsert c p now ob rows)"
    using upsert_length[of rows c p now ob] by simp
  from Cons.IH[OF this] Cons.prems show ?case
    by (simp add: upsert_all_def touch_all_def upsert_nth)
qed

lemma upsert_platforms_Cons:
  "upsert_platforms c results now (p # ps) rows =
     upsert_platforms c results now ps
       (case returned (results p) of Some obs \<Rightarrow> upsert_all c p now obs rows | None \<Rightarrow> rows)"
  by (simp add: upsert_platforms_def)

lemma mark_platforms_Cons:
  "mark_platforms c results (p # ps) rows =
     mark_platforms c results ps
       (case returned (results p) of Some obs \<Rightarrow> mark_inactive c p obs rows | None \<Rightarrow> rows)"
  by (simp add: mark_platforms_def)

lemma upsert_platforms_length:
  "length rows \<le> length (upsert_platforms c results now ps rows)"
proof (induction ps arbitrary: rows)
  case Nil
  show ?case by (simp add: upsert_platforms_def)
next
  case (Cons p ps)
  let ?rows = "case returned (results p) of
                 Some obs \<Rightarrow> upsert_all c p now obs rows | None \<Rightarrow> rows"
  have "length rows \<le> length ?rows"
    by (simp add: upsert_all_length split: option.splits)
  also have "\<dots> \<le> length (upsert_platforms c results now ps ?rows)" by (rule Cons.IH)
  finally show ?case by (simp add: upsert_platforms_Cons)
qed

lemma upsert_platforms_nth:
  "distinct ps \<Longrightarrow> i < length rows \<Longrightarrow>
   upsert_platforms c results now ps rows ! i =
     (if platform (rows ! i) \<in> set ps then row_upserted c results now (rows ! i)
      else rows ! i)"
proof (induction ps arbitrary: rows)
  case Nil
  show ?case by (simp add: upsert_platforms_def)
next
  case (Cons p ps)
  let ?rows = "case returned (results p) of
                 Some obs \<Rightarrow> upsert_all c p now obs rows | None \<Rightarrow> rows"
  have len: "i < length ?rows"
    using Cons.prems(2) upsert_all_length[of rows c p now]
    by (auto split: option.splits intro: less_le_trans)
  have row: "?rows ! i =
      (case returned (results p) of
         Some obs \<Rightarrow> touch_all c p now obs (rows ! i) | None \<Rightarrow> rows ! i)"
    using Cons.prems(2) by (simp add: upsert_all_nth split: option.splits)
  have plat: "platform (?rows ! i) = platform (rows ! i)"
    unfolding row by (simp split: option.splits)
  from Cons.prems(1) have d: "distinct ps" and np: "p \<notin> set ps" by simp_all
  note IH = Cons.IH[OF d len]
  show ?case
  proof (cases "platform (rows ! i) = p")
    case True
    with np plat have "platform (?rows ! i) \<notin> set ps" by simp
    with IH have "upsert_platforms c results now ps ?rows ! i = ?rows ! i" by simp
    with True show ?thesis
      by (simp add: upsert_platforms_Cons row row_upserted_def touch_all_latest
          split: option.splits)
  next
    case False
    then have same: "?rows ! i = rows ! i"
      unfolding row by (simp add: touch_all_latest split: option.splits)
    with IH False show ?thesis by (simp add: upsert_platforms_Cons)
  qed
qed

lemma deactivate_platform [simp]: "platform (deactivate c p obs a) = platform a"
  by (simp add: deactivate_def)

lemma deactivate_other: "platform a \<noteq> p \<Longrightarrow> deactivate c p obs a = a"
  by (simp add: deactivate_def)

lemma mark_platforms_map:
  "distinct ps \<Longrightarrow>
   mark_platforms c results ps rows =
     map (\<lambda>a. if platform a \<in> set ps then row_marked c results a else a) rows"
proof (induction ps arbitrary: rows)
  case Nil
  show ?case by (simp add: mark_platforms_def)
next
  case (Cons p ps)
  then have d: "distinct ps" and np: "p \<notin> set ps" by simp_all
  show ?case
  proof (cases "returned (results p)")
    case None
    then show ?thesis
      using Cons.IH[OF d, of rows] np
      by (auto simp: mark_platforms_Cons row_marked_def)
  next
    case (Some obs)
    have step: "(if platform (deactivate c p obs a) \<in> set ps
                 then row_marked c results (deactivate c p obs a)
                 else deactivate c p obs a) =
                (if platform a \<in> set (p # ps) then row_marked c results a else a)" for a
    proof (cases "platform a = p")
      case True
      with np Some show ?thesis by (simp add: row_marked_def)
    next
      case False
      then show ?thesis by (simp add: deactivate_other)
    qed
    have "mark_platforms c results (p # ps) rows =
            mark_platforms c results ps (map (deactivate c p obs) rows)"
      by (simp add: mark_platforms_Cons Some mark_inactive_def)
    also have "\<dots> = map (\<lambda>a. if platform a \<in> set ps then row_marked c results a else a)
                      (map (deactivate c p obs) rows)"
      by (rule Cons.IH[OF d])
    also have "\<dots> = map (\<lambda>a. if platform (deactivate c p obs a) \<in> set ps
                             then row_marked c results (deactivate c p obs a)
                             else deactivate c p obs a) rows"
      by (simp only: map_map comp_def)
    also have "\<dots> = map (\<lambda>a. if platform a \<in> set (p # ps) then row_marked c results a
                             else a) rows"
      by (simp only: step)
    finally show ?thesis .
  qed
qed

lemma platforms_all: "distinct platforms \<and> set platforms = UNIV"
proof -
  have "p \<in> set platforms" for p by (cases p) (simp_all add: platforms_def)
  then show ?thesis by (auto simp: platforms_def)
qed

lemma run_rows_nth:
  assumes "i < length rows"
  shows "mark_platforms c results platforms (upsert_platforms c results now platforms rows) ! i
         = row_marked c results (row_upserted c results now (rows ! i))"
proof -
  have "i < length (upsert_platforms c results now platforms rows)"
    using assms upsert_platforms_length[of rows c results now platforms] by simp
  then show ?thesis
    using assms platforms_all
    by (simp add: mark_platforms_map upsert_platforms_nth)
qed

lemma upsert_all_snoc:
  "upsert_all c p now (obs @ [ob]) rows = upsert c p now ob (upsert_all c p now obs rows)"
  by (simp add: upsert_all_def)

lemma upsert_all_Cons:
  "upsert_all c p now (ob # obs) rows = upsert_all c p now obs (upsert c p now ob rows)"
  by (simp add: upsert_all_def)

lemma upsert_platforms_snoc:
  "upsert_platforms c results now (ps @ [p]) rows =
     (case returned (results p) of
        Some obs \<Rightarrow> upsert_all c p now obs (upsert_platforms c results now ps rows)
      | None \<Rightarrow> upsert_platforms c results now ps rows)"
  by (simp add: upsert_platforms_def split: option.splits)

lemma upsert_rows:
  assumes "b \<in> set (upsert c p now ob rows)"
  shows "(\<exists>a \<in> set rows. b = touch c p now ob a) \<or> b = new_ad c p now ob"
proof (cases "\<exists>a \<in> set rows. same_key c p (o_external_ad_id ob) a")
  case True
  with assms show ?thesis by (auto simp: upsert_def)
next
  case False
  then have "touch c p now ob a = a" if "a \<in> set rows" for a
    using that by (auto simp: touch_def)
  with assms False show ?thesis by (auto simp: upsert_def)
qed

lemma new_ad_key [simp]:
  "competitor (new_ad c p now ob) = c"
  "platform (new_ad c p now ob) = p"
  "external_ad_id (new_ad c p now ob) = o_external_ad_id ob"
  by (simp_all add: new_ad_def)

lemma fresh_touch:
  assumes "fresh c p obs a"
  shows "fresh c p (obs @ [ob]) (touch c p now ob a)"
proof (cases "same_key c p (o_external_ad_id ob) a")
  case True
  then show ?thesis
    by (simp add: fresh_def touch_def latest_snoc same_key_def refresh_def)
next
  case False
  with assms show ?thesis
    by (auto simp: fresh_def touch_def latest_snoc same_key_def)
qed

lemma fresh_new_ad: "fresh c p (obs @ [ob]) (new_ad c p now ob)"
  by (simp add: fresh_def latest_snoc new_ad_def)

lemma upsert_all_fresh:
  "b \<in> set (upsert_all c p now obs rows) \<Longrightarrow> fresh c p obs b"
proof (induction obs arbitrary: b rule: rev_induct)
  case Nil
  show ?case by (simp add: fresh_def latest_def)
next
  case (snoc ob obs)
  from snoc.prems have "b \<in> set (upsert c p now ob (upsert_all c p now obs rows))"
    by (simp add: upsert_all_snoc)
  then consider a where "a \<in> set (upsert_all c p now obs rows)" "b = touch c p now ob a"
    | "b = new_ad c p now ob"
    using upsert_rows by blast
  then show ?case
  proof cases
    case 1
    with snoc.IH show ?thesis by (simp add: fresh_touch)
  next
    case 2
    then show ?thesis by (simp add: fresh_new_ad)
  qed
qed

lemma upsert_all_rows:
  "b \<in> set (upsert_all c p now obs rows) \<Longrightarrow>
   (\<exists>a \<in> set rows. b = touch_all c p now obs a) \<or> (competitor b = c \<and> platform b = p)"
proof (induction obs arbitrary: b rule: rev_induct)
  case Nil
  then show ?case by (simp add: upsert_all_def touch_all_def)
next
  case (snoc ob obs)
  from snoc.prems have "b \<in> set (upsert c p now ob (upsert_all c p now obs rows))"
    by (simp add: upsert_all_snoc)
  then consider a where "a \<in> set (upsert_all c p now obs rows)" "b = touch c p now ob a"
    | "b = new_ad c p now ob"
    using upsert_rows by blast
  then show ?case
  proof cases
    case 1
    from snoc.IH[OF 1(1)] show ?thesis
    proof
      assume "\<exists>a' \<in> set rows. a = touch_all c p now obs a'"
      with 1(2) show ?thesis by (auto simp: touch_all_snoc)
    next
      assume "competitor a = c \<and> platform a = p"
      with 1(2) show ?thesis by simp
    qed
  next
    case 2
    then show ?thesis by simp
  qed
qed

lemma fresh_other_platform: "platform b \<noteq> p \<Longrightarrow> fresh c p obs b"
  by (simp add: fresh_def)

lemma touch_all_other: "platform a \<noteq> p \<Longrightarrow> touch_all c p now obs a = a"
  by (simp add: touch_all_latest)

lemma upsert_platforms_fresh:
  "distinct ps \<Longrightarrow> b \<in> set (upsert_platforms c results now ps rows) \<Longrightarrow>
   p \<in> set ps \<Longrightarrow> returned (results p) = Some obs \<Longrightarrow> fresh c p obs b"
proof (induction ps arbitrary: b p obs rule: rev_induct)
  case Nil
  then show ?case by simp
next
  case (snoc q ps)
  let ?R = "upsert_platforms c results now ps rows"
  from snoc.prems(1) have d: "distinct ps" and nq: "q \<notin> set ps" by simp_all
  show ?case
  proof (cases "returned (results q)")
    case None
    with snoc.prems have "b \<in> set ?R" and "p \<in> set ps"
      by (auto simp: upsert_platforms_snoc)
    with snoc.IH[OF d] snoc.prems(4) show ?thesis by blast
  next
    case (Some obs')
    with snoc.prems(2) have b: "b \<in> set (upsert_all c q now obs' ?R)"
      by (simp add: upsert_platforms_snoc)
    show ?thesis
    proof (cases "p = q")
      case True
      with Some snoc.prems(4) b show ?thesis by (simp add: upsert_all_fresh)
    next
      case False
      with snoc.prems(3) have pin: "p \<in> set ps" by simp
      from upsert_all_rows[OF b] show ?thesis
      proof
        assume "\<exists>a \<in> set ?R. b = touch_all c q now obs' a"
        then obtain a where a: "a \<in> set ?R" and ba: "b = touch_all c q now obs' a" by blast
        show ?thesis
        proof (cases "platform a = p")
          case True
          with False ba have "b = a" by (simp add: touch_all_other)
          with snoc.IH[OF d a pin snoc.prems(4)] show ?thesis by simp
        next
          case False
          with ba show ?thesis by (simp add: fresh_other_platform)
        qed
      next
        assume "competitor b = c \<and> platform b = q"
        with False show ?thesis by (simp add: fresh_other_platform)
      qed
    qed
  qed
qed

lemma has_key_upsert: "has_key c' p' x rows \<Longrightarrow> has_key c' p' x (upsert c p now ob rows)"
  by (auto simp: has_key_def upsert_def)

lemma has_key_upsert_self: "has_key c p (o_external_ad_id ob) (upsert c p now ob rows)"
  by (auto simp: has_key_def upsert_def same_key_def)

lemma has_key_upsert_all:
  "has_key c' p' x rows \<Longrightarrow> has_key c' p' x (upsert_all c p now obs rows)"
  by (induction obs arbitrary: rows) (simp_all add: upsert_all_def has_key_upsert)

lemma has_key_upsert_all_self:
  "ob \<in> set obs \<Longrightarrow> has_key c p (o_external_ad_id ob) (upsert_all c p now obs rows)"
proof (induction obs arbitrary: rows)
  case Nil
  then show ?case by simp
next
  case (Cons ob' obs)
  show ?case
  proof (cases "ob = ob'")
    case True
    then show ?thesis
      by (simp add: upsert_all_Cons has_key_upsert_all has_key_upsert_self)
  next
    case False
    with Cons show ?thesis by (simp add: upsert_all_Cons)
  qed
qed

lemma has_key_upsert_platforms:
  "has_key c' p' x rows \<Longrightarrow> has_key c' p' x (upsert_platforms c results now ps rows)"
  by (induction ps arbitrary: rows)
     (simp add: upsert_platforms_def,
      simp add: upsert_platforms_Cons has_key_upsert_all split: option.splits)

lemma has_key_upsert_platforms_self:
  "p \<in> set ps \<Longrightarrow> returned (results p) = Some obs \<Longrightarrow> ob \<in> set obs \<Longrightarrow>
   has_key c p (o_external_ad_id ob) (upsert_platforms c results now ps rows)"
proof (induction ps arbitrary: rows)
  case Nil
  then show ?case by simp
next
  case (Cons q ps)
  show ?case
  proof (cases "p = q")
    case True
    with Cons.prems show ?thesis
      by (simp add: upsert_platforms_Cons has_key_upsert_platforms has_key_upsert_all_self)
  next
    case False
    with Cons show ?thesis by (simp add: upsert_platforms_Cons)
  qed
qed

lemma row_marked_key [simp]:
  "competitor (row_marked c results a) = competitor a"
  "platform (row_marked c results a) = platform a"
  "external_ad_id (row_marked c results a) = external_ad_id a"
  by (simp_all add: row_marked_def deactivate_def split: option.splits)

lemma mark_platforms_all:
  "mark_platforms c results platforms rows = map (row_marked c results) rows"
  using platforms_all by (simp add: mark_platforms_map)

lemma has_key_mark:
  "has_key c' p' x rows \<Longrightarrow> has_key c' p' x (mark_platforms c results platforms rows)"
  by (auto simp: has_key_def mark_platforms_all same_key_def)

lemma run_rows_covered: "covered c results (run_rows c results now rows)"
  unfolding covered_def run_rows_def
  using platforms_all by (auto intro!: has_key_mark has_key_upsert_platforms_self)

lemma settled_row_marked:
  assumes "\<And>obs. returned (results (platform b)) = Some obs \<Longrightarrow> fresh c (platform b) obs b"
  shows "settled c results (row_marked c results b)"
proof (cases "returned (results (platform b))")
  case None
  then show ?thesis by (simp add: settled_def row_marked_def)
next
  case (Some obs)
  from assms[OF Some] have f: "fresh c (platform b) obs b" .
  show ?thesis
  proof (cases "latest obs (external_ad_id b)")
    case None
    then have "external_ad_id b \<notin> set (map o_external_ad_id obs)"
      by (simp add: latest_None_iff)
    with Some None show ?thesis
      by (simp add: settled_def row_marked_def deactivate_def)
  next
    case (Some ob)
    then have "external_ad_id b \<in> set (map o_external_ad_id obs)"
      using latest_None_iff[of obs "external_ad_id b"] by auto
    with f Some \<open>returned (results (platform b)) = Some obs\<close> show ?thesis
      by (simp add: settled_def row_marked_def deactivate_def fresh_def)
  qed
qed

lemma run_rows_settled:
  assumes "b \<in> set (run_rows c results now rows)"
  shows "settled c results b"
proof -
  from assms obtain a where a: "a \<in> set (upsert_platforms c results now platforms rows)"
    and b: "b = row_marked c results a"
    by (auto simp: run_rows_def mark_platforms_all)
  have "fresh c (platform a) obs a" if "returned (results (platform a)) = Some obs" for obs
    using upsert_platforms_fresh[OF _ a _ that] platforms_all by simp
  then show ?thesis unfolding b by (rule settled_row_marked)
qed

lemma upsert_covered: "has_key c p (o_external_ad_id ob) rows \<Longrightarrow>
   upsert c p now ob rows = map (touch c p now ob) rows"
  by (simp add: upsert_def has_key_def)

lemma has_key_map_touch [simp]:
  "has_key c' p' x (map (touch c p now ob) rows) = has_key c' p' x rows"
  by (simp add: has_key_def)

lemma upsert_all_covered_length:
  "(\<And>ob. ob \<in> set obs \<Longrightarrow> has_key c p (o_external_ad_id ob) rows) \<Longrightarrow>
   length (upsert_all c p now obs rows) = length rows"
proof (induction obs arbitrary: rows)
  case Nil
  show ?case by (simp add: upsert_all_def)
next
  case (Cons ob obs)
  have u: "upsert c p now ob rows = map (touch c p now ob) rows"
    using Cons.prems by (simp add: upsert_covered)
  have "length (upsert_all c p now obs (map (touch c p now ob) rows)) =
        length (map (touch c p now ob) rows)"
    using Cons.prems by (intro Cons.IH) simp
  then show ?case by (simp add: upsert_all_Cons u)
qed

lemma covered_upsert_all: "covered c' results rows \<Longrightarrow> covered c' results (upsert_all c p now obs rows)"
  by (simp add: covered_def has_key_upsert_all)

lemma upsert_platforms_covered_length:
  "covered c results rows \<Longrightarrow>
   length (upsert_platforms c results now ps rows) = length rows"
proof (induction ps arbitrary: rows)
  case Nil
  show ?case by (simp add: upsert_platforms_def)
next
  case (Cons p ps)
  show ?case
  proof (cases "returned (results p)")
    case None
    with Cons show ?thesis by (simp add: upsert_platforms_Cons)
  next
    case (Some obs)
    have l: "length (upsert_all c p now obs rows) = length rows"
      using Cons.prems Some by (intro upsert_all_covered_length) (simp add: covered_def)
    have "covered c results (upsert_all c p now obs rows)"
      using Cons.prems by (rule covered_upsert_all)
    from Cons.IH[OF this] l Some show ?thesis by (simp add: upsert_platforms_Cons)
  qed
qed

lemma settled_rerun:
  assumes "settled c results b"
  shows "row_marked c results (row_upserted c results now b) =
         (if reobserved c results b then b\<lparr>last_seen := now\<rparr> else b)"
proof (cases "competitor b = c")
  case False
  then show ?thesis
    by (simp add: row_upserted_def row_marked_def reobserved_def deactivate_def
        split: option.splits)
next
  case c: True
  show ?thesis
  proof (cases "returned (results (platform b))")
    case None
    with c show ?thesis by (simp add: row_upserted_def row_marked_def reobserved_def)
  next
    case (Some obs)
    show ?thesis
    proof (cases "latest obs (external_ad_id b)")
      case None
      then have n: "external_ad_id b \<notin> set (map o_external_ad_id obs)"
        by (simp add: latest_None_iff)
      from assms c Some None have "\<not> is_active b" by (simp add: settled_def)
      then have "b\<lparr>is_active := False\<rparr> = b" by simp
      with c Some None n show ?thesis
        by (simp add: row_upserted_def row_marked_def reobserved_def deactivate_def)
    next
      case ob: (Some ob)
      then have i: "external_ad_id b \<in> set (map o_external_ad_id obs)"
        using latest_None_iff[of obs "external_ad_id b"] by auto
      from assms c Some ob have "refresh now ob b = b\<lparr>last_seen := now\<rparr>"
        by (simp add: settled_def refresh_def)
      with c Some ob i show ?thesis
        by (simp add: row_upserted_def row_marked_def reobserved_def deactivate_def)
    qed
  qed
qed

lemma rerun_rows:
  assumes "covered c results rows" and "\<And>b. b \<in> set rows \<Longrightarrow> settled c results b"
  shows "run_rows c results now rows =
         map (\<lambda>b. if reobserved c results b then b\<lparr>last_seen := now\<rparr> else b) rows"
proof (rule nth_equalityI)
  show len: "length (run_rows c results now rows) = length (map (\<lambda>b. if reobserved c results b then b\<lparr>last_seen := now\<rparr> else b) rows)"
    using assms(1) by (simp add: run_rows_def mark_platforms_all upsert_platforms_covered_length)
  fix i assume "i < length (run_rows c results now rows)"
  with len have i: "i < length rows" by simp
  then have "settled c results (rows ! i)" by (simp add: assms(2))
  then show "run_rows c results now rows ! i =
      map (\<lambda>b. if reobserved c results b then b\<lparr>last_seen := now\<rparr> else b) rows ! i"
    using i by (simp add: run_rows_def run_rows_nth settled_rerun)
qed

lemma runFetch_Inr:
  "runFetch c results now finished s = Inr (job, s') \<Longrightarrow>
   \<not> (\<exists>j \<in> set (jobs s). job_competitor j = c \<and> job_status j = Running) \<and>
   ads s' = run_rows c results now (ads s) \<and>
   jobs s' = jobs s @ [job] \<and> job_competitor job = c \<and>
   job_status job = overall_status results \<and> finished_at job = Some finished"
  by (auto simp: runFetch_def run_rows_def Let_def split: if_splits)

lemma overall_status_not_running: "overall_status results \<noteq> Running"
  by (simp add: overall_status_def Let_def)

text \<open>
  C6. After a run of \<open>runFetch\<close> for competitor \<open>c\<close>, every ad that was stored before the
  run is still stored, at its place. If it is an ad of \<open>c\<close> whose platform returned
  \<open>Ok\<close> or \<open>PartialOk\<close> and whose external id is not in that result, it is the old row
  with is-active false. If its platform errored, the row is unchanged, its is-active
  flag included. An ad of another competitor is unchanged.
\<close>

theorem runFetch_marks_vanished_only:
  assumes "runFetch c results now finished s = Inr (job, s')"
    and "i < length (ads s)"
  shows "i < length (ads s') \<and>
    (competitor (ads s ! i) = c \<and>
     (results (platform (ads s ! i)) = Ok obs \<or>
      results (platform (ads s ! i)) = PartialOk obs w) \<and>
     external_ad_id (ads s ! i) \<notin> set (map o_external_ad_id obs) \<longrightarrow>
       ads s' ! i = (ads s ! i)\<lparr>is_active := False\<rparr>) \<and>
    (results (platform (ads s ! i)) = Error k m \<longrightarrow> ads s' ! i = ads s ! i) \<and>
    (competitor (ads s ! i) \<noteq> c \<longrightarrow> ads s' ! i = ads s ! i)"
proof -
  let ?a = "ads s ! i"
  from assms(1) have rows: "ads s' = run_rows c results now (ads s)"
    by (simp add: runFetch_Inr)
  have len: "i < length (ads s')"
    unfolding rows run_rows_def mark_platforms_all
    using assms(2) upsert_platforms_length[of "ads s" c results now platforms] by simp
  have row: "ads s' ! i = row_marked c results (row_upserted c results now ?a)"
    unfolding rows run_rows_def using assms(2) by (rule run_rows_nth)
  have vanished: "ads s' ! i = ?a\<lparr>is_active := False\<rparr>"
    if "competitor ?a = c" "returned (results (platform ?a)) = Some obs"
       "external_ad_id ?a \<notin> set (map o_external_ad_id obs)"
  proof -
    from that(3) have "latest obs (external_ad_id ?a) = None" by (simp add: latest_None_iff)
    with that show ?thesis
      by (simp add: row row_upserted_def row_marked_def deactivate_def)
  qed
  have errored: "ads s' ! i = ?a" if "returned (results (platform ?a)) = None"
    using that by (simp add: row row_upserted_def row_marked_def)
  have other: "ads s' ! i = ?a" if "competitor ?a \<noteq> c"
    using that by (simp add: row row_upserted_def row_marked_def deactivate_def split: option.splits)
  show ?thesis
    using len vanished errored other by (auto simp: returned_def)
qed

theorem runFetch_marks_vanished_only_witness:
  "case runFetch 7 example_results 100 101 example_store of
     Inl e \<Rightarrow> False
   | Inr (job, s') \<Rightarrow>
       example_results GeneralSearch =
         Ok [example_observed ''g-1'' ImageFormat (Some 12000),
             example_observed ''g-2'' VideoFormat None,
             example_observed ''g-3'' ImageFormat (Some 800)] \<and>
       ads example_store ! 1 = example_ad 7 GeneralSearch ''g-0'' 60 \<and>
       ads s' ! 1 = (example_ad 7 GeneralSearch ''g-0'' 60)\<lparr>is_active := False\<rparr> \<and>
       example_results Social = Error Timeout ''timed out'' \<and>
       ads example_store ! 2 = example_ad 7 Social ''s-1'' 70 \<and>
       ads s' ! 2 = example_ad 7 Social ''s-1'' 70 \<and>
       ads example_store ! 4 = example_ad 8 GeneralSearch ''g-9'' 90 \<and>
       ads s' ! 4 = example_ad 8 GeneralSearch ''g-9'' 90"
proof -
  obtain job s' where run: "runFetch 7 example_results 100 101 example_store = Inr (job, s')"
    by (simp add: runFetch_def example_store_def Let_def)
  have g: "example_results GeneralSearch =
         Ok [example_observed ''g-1'' ImageFormat (Some 12000),
             example_observed ''g-2'' VideoFormat None,
             example_observed ''g-3'' ImageFormat (Some 800)]"
    and e: "example_results Social = Error Timeout ''timed out''"
    by (simp_all add: example_results_def)
  have r1: "ads example_store ! 1 = example_ad 7 GeneralSearch ''g-0'' 60"
    and r2: "ads example_store ! 2 = example_ad 7 Social ''s-1'' 70"
    and r4: "ads example_store ! 4 = example_ad 8 GeneralSearch ''g-9'' 90"
    and len: "length (ads example_store) = 5"
    by (simp_all add: example_store_def)
  have k: "competitor (example_ad c p x t) = c" "platform (example_ad c p x t) = p"
    "external_ad_id (example_ad c p x t) = x" for c p x t
    by (simp_all add: example_ad_def)
  have "ads s' ! 1 = (example_ad 7 GeneralSearch ''g-0'' 60)\<lparr>is_active := False\<rparr>"
    using runFetch_marks_vanished_only [OF run, of 1
        "[example_observed ''g-1'' ImageFormat (Some 12000),
          example_observed ''g-2'' VideoFormat None,
          example_observed ''g-3'' ImageFormat (Some 800)]"]
    by (simp add: len r1 [unfolded One_nat_def] k g example_observed_def)
  moreover have "ads s' ! 2 = example_ad 7 Social ''s-1'' 70"
    using runFetch_marks_vanished_only [OF run, of 2 _ _ Timeout "''timed out''"]
    by (simp add: len r2 k e)
  moreover have "ads s' ! 4 = example_ad 8 GeneralSearch ''g-9'' 90"
    using runFetch_marks_vanished_only [OF run, of 4]
    by (simp add: len r4 k)
  ultimately show ?thesis
    using run g e r1 r2 r4 by simp
qed

text \<open>
  C7. A run never changes the first-seen of a stored ad. A second run for the same
  competitor with the same results as the run before is not refused, creates no row,
  and changes nothing but the last-seen of the ads observed again: first-seen of every
  row is what it was.
\<close>

theorem rerun_identical_keeps_first_seen:
  assumes "runFetch c results now finished s = Inr (job, s')"
  shows "take (length (ads s)) (map first_seen (ads s')) = map first_seen (ads s) \<and>
    (\<exists>job2 s2. runFetch c results now2 finished2 s' = Inr (job2, s2) \<and>
       ads s2 = map (\<lambda>b. if reobserved c results b then b\<lparr>last_seen := now2\<rparr> else b) (ads s') \<and>
       length (ads s2) = length (ads s') \<and>
       map first_seen (ads s2) = map first_seen (ads s'))"
proof -
  from assms have idle: "\<not> (\<exists>j \<in> set (jobs s). job_competitor j = c \<and> job_status j = Running)"
    and rows: "ads s' = run_rows c results now (ads s)"
    and ledger: "jobs s' = jobs s @ [job]"
    and status: "job_status job = overall_status results"
    by (simp_all add: runFetch_Inr)
  have first: "take (length (ads s)) (map first_seen (ads s')) = map first_seen (ads s)"
  proof (rule nth_equalityI)
    have "length (ads s) \<le> length (ads s')"
      unfolding rows run_rows_def mark_platforms_all
      using upsert_platforms_length[of "ads s" c results now platforms] by simp
    then show l: "length (take (length (ads s)) (map first_seen (ads s'))) =
        length (map first_seen (ads s))" by simp
    fix i assume "i < length (take (length (ads s)) (map first_seen (ads s')))"
    with l have i: "i < length (ads s)" by simp
    with \<open>length (ads s) \<le> length (ads s')\<close> have i': "i < length (ads s')" by simp
    have "ads s' ! i = row_marked c results (row_upserted c results now (ads s ! i))"
      unfolding rows run_rows_def using i by (rule run_rows_nth)
    then have "first_seen (ads s' ! i) = first_seen (ads s ! i)"
      by (simp add: row_marked_def row_upserted_def deactivate_def split: option.splits)
    with i i' show "take (length (ads s)) (map first_seen (ads s')) ! i =
        map first_seen (ads s) ! i" by simp
  qed
  from idle ledger status
  have idle': "\<not> (\<exists>j \<in> set (jobs s'). job_competitor j = c \<and> job_status j = Running)"
    by (auto simp: overall_status_not_running)
  then obtain job2 s2 where run2: "runFetch c results now2 finished2 s' = Inr (job2, s2)"
    by (simp add: runFetch_def Let_def)
  then have "ads s2 = run_rows c results now2 (ads s')" by (simp add: runFetch_Inr)
  also have "\<dots> = map (\<lambda>b. if reobserved c results b then b\<lparr>last_seen := now2\<rparr> else b) (ads s')"
    unfolding rows by (intro rerun_rows run_rows_covered run_rows_settled)
  finally have same: "ads s2 =
      map (\<lambda>b. if reobserved c results b then b\<lparr>last_seen := now2\<rparr> else b) (ads s')" .
  then have "length (ads s2) = length (ads s')" by simp
  moreover from same have "map first_seen (ads s2) = map first_seen (ads s')"
    by (simp add: comp_def if_distrib cong: if_cong)
  ultimately show ?thesis using first run2 same by blast
qed

theorem rerun_identical_keeps_first_seen_witness:
  "case runFetch 7 example_results 100 101 example_store of
     Inl e \<Rightarrow> False
   | Inr (job, s') \<Rightarrow>
       map first_seen (ads s') = [50, 60, 70, 80, 90, 100, 100, 100] \<and>
       map last_seen (ads s') = [100, 60, 70, 80, 90, 100, 100, 100] \<and>
       (case runFetch 7 example_results 200 201 s' of
          Inl e \<Rightarrow> False
        | Inr (job2, s2) \<Rightarrow>
            map first_seen (ads s2) = [50, 60, 70, 80, 90, 100, 100, 100] \<and>
            map last_seen (ads s2) = [200, 60, 70, 80, 90, 200, 200, 200] \<and>
            map is_active (ads s2) = map is_active (ads s'))"
proof -
  obtain job s' where run: "runFetch 7 example_results 100 101 example_store = Inr (job, s')"
    by (simp add: runFetch_def example_store_def Let_def)
  have "ads (snd (projr (runFetch 7 example_results 100 101 example_store))) =
      [refresh 100 (example_observed ''g-1'' ImageFormat (Some 12000))
         (example_ad 7 GeneralSearch ''g-1'' 50),
       (example_ad 7 GeneralSearch ''g-0'' 60)\<lparr>is_active := False\<rparr>,
       example_ad 7 Social ''s-1'' 70,
       (example_ad 7 Forum ''f-1'' 80)\<lparr>is_active := False\<rparr>,
       example_ad 8 GeneralSearch ''g-9'' 90,
       new_ad 7 GeneralSearch 100 (example_observed ''g-2'' VideoFormat None),
       new_ad 7 GeneralSearch 100 (example_observed ''g-3'' ImageFormat (Some 800)),
       new_ad 7 ProfessionalNetwork 100 (example_observed ''p-1'' CarouselFormat None)]"
    by (simp add: runFetch_def upsert_platforms_def platforms_def returned_def upsert_all_def
        upsert_def touch_def same_key_def refresh_def new_ad_def mark_platforms_def
        mark_inactive_def deactivate_def example_store_def example_results_def example_ad_def
        example_observed_def Let_def)
  with run have rows: "ads s' =
      [refresh 100 (example_observed ''g-1'' ImageFormat (Some 12000))
         (example_ad 7 GeneralSearch ''g-1'' 50),
       (example_ad 7 GeneralSearch ''g-0'' 60)\<lparr>is_active := False\<rparr>,
       example_ad 7 Social ''s-1'' 70,
       (example_ad 7 Forum ''f-1'' 80)\<lparr>is_active := False\<rparr>,
       example_ad 8 GeneralSearch ''g-9'' 90,
       new_ad 7 GeneralSearch 100 (example_observed ''g-2'' VideoFormat None),
       new_ad 7 GeneralSearch 100 (example_observed ''g-3'' ImageFormat (Some 800)),
       new_ad 7 ProfessionalNetwork 100 (example_observed ''p-1'' CarouselFormat None)]"
    by simp
  from rerun_identical_keeps_first_seen [OF run, of 200 201]
  obtain job2 s2 where run2: "runFetch 7 example_results 200 201 s' = Inr (job2, s2)"
    and same: "ads s2 =
      map (\<lambda>b. if reobserved 7 example_results b then b\<lparr>last_seen := 200\<rparr> else b) (ads s')"
    by blast
  have "map first_seen (ads s') = [50, 60, 70, 80, 90, 100, 100, 100]"
    and "map last_seen (ads s') = [100, 60, 70, 80, 90, 100, 100, 100]"
    and "map first_seen (ads s2) = [50, 60, 70, 80, 90, 100, 100, 100]"
    and "map last_seen (ads s2) = [200, 60, 70, 80, 90, 200, 200, 200]"
    and "map is_active (ads s2) = map is_active (ads s')"
    unfolding same rows
    by (simp_all add: reobserved_def returned_def example_results_def example_ad_def
        example_observed_def refresh_def new_ad_def)
  with run run2 show ?thesis by simp
qed

end
